theory Spec2Isabelle
  imports Main "HOL-Library.Word"
begin

section \<open>The serial bridge of the agent backend (src/agent\_backend/src/main.py)\<close>

text \<open>
  The bridge is the body of \<open>main()\<close>: a polling loop over a non-blocking PTY descriptor.
  It is modelled function by function in the order of the data flow: text and bytes,
  the paced writer (lines 305-326), the classification of the handler's result
  (lines 250-303), the handler dispatch (lines 117-248), the framing loop (lines 98-113)
  and one iteration of the outer loop (lines 70-96, 331).

  Everything outside the repository that the loop calls is a field of the record
  \<open>world\<close>: the descriptor (\<open>os.read\<close>, \<open>os.write\<close>), \<open>os.path.exists\<close>, Python's
  \<open>json.loads\<close> and \<open>str.lower\<close>, and the tools and the agent graph. Calls whose result
  may differ from one call to the next take the number of calls made so far (the tick).
  Standard output is taken to be UTF-8 with strict errors, the default of the platform:
  \<open>print\<close> raises UnicodeEncodeError on a text that holds a surrogate code point and on
  no other text. KeyboardInterrupt and the exhaustion of memory are outside the model.
\<close>

subsection \<open>Text and bytes\<close>

text \<open>
  A Python \<open>str\<close> is a sequence of Unicode code points, a \<open>bytes\<close> object a sequence of
  octets. \<open>lit\<close> turns an ASCII literal of the source into a \<open>str\<close>.
\<close>

type_synonym pystr = "nat list"
type_synonym byte = "8 word"

definition lit :: "string \<Rightarrow> pystr" where
  "lit s = map of_char s"

text \<open>
  \<open>chunk.encode('utf-8')\<close> (line 320). The strict encoder raises UnicodeEncodeError on a
  surrogate code point; that is the result None here.
\<close>

definition utf8_encode_cp :: "nat \<Rightarrow> byte list option" where
  "utf8_encode_cp c =
     (if c < 0x80 then Some [of_nat c]
      else if c < 0x800 then Some [of_nat (0xC0 + c div 64), of_nat (0x80 + c mod 64)]
      else if 0xD800 \<le> c \<and> c \<le> 0xDFFF then None
      else if c < 0x10000 then
        Some [of_nat (0xE0 + c div 4096), of_nat (0x80 + (c div 64) mod 64),
              of_nat (0x80 + c mod 64)]
      else
        Some [of_nat (0xF0 + c div 262144), of_nat (0x80 + (c div 4096) mod 64),
              of_nat (0x80 + (c div 64) mod 64), of_nat (0x80 + c mod 64)])"

fun utf8_encode :: "pystr \<Rightarrow> byte list option" where
  "utf8_encode [] = Some []"
| "utf8_encode (c # cs) =
     (case utf8_encode_cp c of
        None \<Rightarrow> None
      | Some bs \<Rightarrow> (case utf8_encode cs of None \<Rightarrow> None | Some rest \<Rightarrow> Some (bs @ rest)))"

definition is_ascii :: "pystr \<Rightarrow> bool" where
  "is_ascii s = (\<forall>c \<in> set s. c < 0x80)"

subsection \<open>The channel and the trace of effects\<close>

text \<open>
  \<open>os.write\<close> on the non-blocking descriptor returns the number of bytes written (the
  source discards it), raises BlockingIOError, or raises another OSError with an errno.
  \<open>os.read\<close> returns bytes (possibly none), or raises in the same two ways.
\<close>

datatype write_result = Written nat | WriteWouldBlock | WriteOSError nat

datatype read_result = Data "byte list" | ReadWouldBlock | ReadOSError nat

datatype exn =
    OSError nat
  | UnicodeEncodeError
  | AttributeError
  | ToolError pystr
  | LoadsException

text \<open>
  The tools and the agent graph the handler dispatch calls (lines 117-248). \<open>Graph\<close>
  stands for the whole body of the \<open>try\<close> of lines 157-242 (the call of the graph and the
  extraction of \<open>response_content\<close> from its messages); \<open>Music\<close> for lines 148-155,
  whose argument is a function of \<open>prompt_lower\<close>.
\<close>

datatype tool = Plot | Calculator | Chess | Psych | Music | Graph

text \<open>
  What happens on the channel and around it, in order: a call of \<open>os.write\<close> by the
  loop (line 320) with its result, a \<open>time.sleep\<close> of the loop (in milliseconds), the
  heartbeat dot of line 95, a call of a tool with its argument, and a call of \<open>os.write\<close>
  made by a tool. The chess and the psychology tool are handed the descriptor (lines 135
  and 141) and write messages of their own to it while they run
  (\<open>send_chess_update\<close>, \<open>send_msg\<close>); both are among the tools of the graph as well.
  The writes of a tool follow its \<open>ECall\<close> in the trace.
\<close>

datatype event =
    EWrite "byte list" write_result
  | ESleep nat
  | EHeartbeat
  | ECall tool pystr
  | EToolWrite "byte list"

text \<open>How a block of statements ends: it falls through, or an exception leaves it.\<close>

datatype outcome = Normal | Raised exn

subsection \<open>The paced writer (lines 310-326)\<close>

text \<open>
  The inner retry loop of one chunk (lines 317-324):
  \<^verbatim>\<open>
    retries = 3
    while retries > 0:
        try:
            os.write(fd, chunk.encode('utf-8'))
            break
        except BlockingIOError:
            time.sleep(0.01)
            retries -= 1
  \<close>
  The first argument is \<open>os.write\<close>, the third the value of \<open>retries\<close>, the fourth the
  tick. The result is the events of the loop, the tick after it and how it ended.
  Sleeps are in milliseconds.
\<close>

fun write_retry ::
  "(nat \<Rightarrow> byte list \<Rightarrow> write_result) \<Rightarrow> pystr \<Rightarrow> nat \<Rightarrow> nat \<Rightarrow> event list \<times> nat \<times> outcome"
where
  "write_retry wr chunk 0 t = ([], t, Normal)"
| "write_retry wr chunk (Suc r) t =
     (case utf8_encode chunk of
        None \<Rightarrow> ([], t, Raised UnicodeEncodeError)
      | Some bs \<Rightarrow>
          (case wr t bs of
             Written n \<Rightarrow> ([EWrite bs (Written n)], Suc t, Normal)
           | WriteOSError e \<Rightarrow> ([EWrite bs (WriteOSError e)], Suc t, Raised (OSError e))
           | WriteWouldBlock \<Rightarrow>
               (case write_retry wr chunk r (Suc t) of
                  (evs, t', out) \<Rightarrow> (EWrite bs WriteWouldBlock # ESleep 10 # evs, t', out))))"

text \<open>
  The chunk loop (lines 310-326), with \<open>i\<close> the loop variable of
  \<open>for i in range(0, len(resp_str), chunk_size)\<close>:
  \<^verbatim>\<open>
    chunk_size = 32
    for i in range(0, len(resp_str), chunk_size):
        chunk = resp_str[i:i+chunk_size]
        retries = 3
        while retries > 0: ...
        time.sleep(0.02)
  \<close>
\<close>

definition chunk_size :: nat where
  "chunk_size = 32"

function send_from ::
  "(nat \<Rightarrow> byte list \<Rightarrow> write_result) \<Rightarrow> pystr \<Rightarrow> nat \<Rightarrow> nat \<Rightarrow> event list \<times> nat \<times> outcome"
where
  "send_from wr resp_str i t =
     (if i < length resp_str then
        (case write_retry wr (take chunk_size (drop i resp_str)) 3 t of
           (evs, t', Raised e) \<Rightarrow> (evs, t', Raised e)
         | (evs, t', Normal) \<Rightarrow>
             (case send_from wr resp_str (i + chunk_size) t' of
                (evs', t'', out) \<Rightarrow> (evs @ ESleep 20 # evs', t'', out)))
      else ([], t, Normal))"
  by pat_completeness auto
termination
  by (relation "measure (\<lambda>(wr, s, i, t). length s - i)") (auto simp: chunk_size_def)

declare send_from.simps [simp del]

definition send :: "(nat \<Rightarrow> byte list \<Rightarrow> write_result) \<Rightarrow> pystr \<Rightarrow> nat \<Rightarrow> event list \<times> nat \<times> outcome" where
  "send wr resp_str t = send_from wr resp_str 0 t"

text \<open>The chunks the loop slices, in order: \<open>resp_str[i:i+32]\<close> for each \<open>i\<close> of the range.\<close>

function chunks_from :: "pystr \<Rightarrow> nat \<Rightarrow> pystr list" where
  "chunks_from resp_str i =
     (if i < length resp_str then
        take chunk_size (drop i resp_str) # chunks_from resp_str (i + chunk_size)
      else [])"
  by pat_completeness auto
termination
  by (relation "measure (\<lambda>(s, i). length s - i)") (auto simp: chunk_size_def)

declare chunks_from.simps [simp del]

subsection \<open>JSON values and \<open>json.dumps\<close>\<close>

text \<open>
  The values \<open>json.loads\<close> returns and \<open>json.dumps\<close> takes. A float is kept as the text
  \<open>json.dumps\<close> prints for it (digits, sign, point and exponent, or \<open>NaN\<close>,
  \<open>Infinity\<close>, \<open>-Infinity\<close>), which is ASCII; a dict is the list of its items in
  insertion order.
\<close>

typedef float_repr = "{s :: nat list. \<forall>c \<in> set s. c < 0x80}"
  by (rule exI [of _ "[]"]) simp

datatype json =
    JNull
  | JBool bool
  | JInt int
  | JFloat float_repr
  | JStr pystr
  | JList "json list"
  | JDict "(pystr \<times> json) list"

text \<open>\<open>d.get(key)\<close> and \<open>d.get(key, default)\<close> on a dict; \<open>d.get(key)\<close> defaults to None.\<close>

definition dict_get :: "(pystr \<times> json) list \<Rightarrow> pystr \<Rightarrow> json \<Rightarrow> json" where
  "dict_get d k dflt = (case map_of d k of None \<Rightarrow> dflt | Some v \<Rightarrow> v)"

text \<open>
  \<open>json.dumps\<close> with its defaults (\<open>ensure_ascii=True\<close>, separators \<open>', '\<close> and \<open>': '\<close>).
  In a string, the quote, the backslash and the five short escapes are written with a
  backslash, the other characters from space to tilde as they are, and everything else as
  \<open>\uXXXX\<close> in lower-case hex, a code point above U+FFFF as a surrogate pair. (Code
  points end at U+10FFFF; each hex digit is taken modulo 16, which changes nothing there.)
\<close>

definition hex_digit :: "nat \<Rightarrow> nat" where
  "hex_digit d = (if d < 10 then 48 + d else 87 + d)"

definition u_escape :: "nat \<Rightarrow> pystr" where
  "u_escape n =
     [92, 117, hex_digit ((n div 4096) mod 16), hex_digit ((n div 256) mod 16),
      hex_digit ((n div 16) mod 16), hex_digit (n mod 16)]"

definition escape_char :: "nat \<Rightarrow> pystr" where
  "escape_char c =
     (if c = 34 then [92, 34]
      else if c = 92 then [92, 92]
      else if c = 10 then [92, 110]
      else if c = 13 then [92, 114]
      else if c = 9 then [92, 116]
      else if c = 8 then [92, 98]
      else if c = 12 then [92, 102]
      else if 32 \<le> c \<and> c \<le> 126 then [c]
      else if c < 0x10000 then u_escape c
      else u_escape (0xD800 + (c - 0x10000) div 1024) @ u_escape (0xDC00 + (c - 0x10000) mod 1024))"

definition dumps_str :: "pystr \<Rightarrow> pystr" where
  "dumps_str s = 34 # concat (map escape_char s) @ [34]"

function dec :: "nat \<Rightarrow> pystr" where
  "dec n = (if n < 10 then [48 + n] else dec (n div 10) @ [48 + n mod 10])"
  by pat_completeness auto
termination
  by (relation "measure id") auto

declare dec.simps [simp del]

definition dumps_int :: "int \<Rightarrow> pystr" where
  "dumps_int i = (if i < 0 then 45 # dec (nat (- i)) else dec (nat i))"

fun join :: "pystr \<Rightarrow> pystr list \<Rightarrow> pystr" where
  "join sep [] = []"
| "join sep [x] = x"
| "join sep (x # y # ys) = x @ sep @ join sep (y # ys)"

fun json_dumps :: "json \<Rightarrow> pystr" where
  "json_dumps JNull = lit ''null''"
| "json_dumps (JBool b) = (if b then lit ''true'' else lit ''false'')"
| "json_dumps (JInt i) = dumps_int i"
| "json_dumps (JFloat r) = Rep_float_repr r"
| "json_dumps (JStr s) = dumps_str s"
| "json_dumps (JList vs) = lit ''['' @ join (lit '', '') (map json_dumps vs) @ lit '']''"
| "json_dumps (JDict kvs) =
     lit ''{'' @ join (lit '', '') (map (\<lambda>kv. dumps_str (fst kv) @ lit '': '' @ json_dumps (snd kv)) kvs)
     @ lit ''}''"

subsection \<open>Classifying the handler's result (lines 250-303)\<close>

text \<open>\<open>s.startswith(p)\<close> and \<open>sub in s\<close>.\<close>

definition startswith :: "pystr \<Rightarrow> pystr \<Rightarrow> bool" where
  "startswith s p = (take (length p) s = p)"

fun contains :: "pystr \<Rightarrow> pystr \<Rightarrow> bool" where
  "contains [] sub = (sub = [])"
| "contains (c # cs) sub = (startswith (c # cs) sub \<or> contains cs sub)"

text \<open>
  \<open>re.search(TAG + r'(\{.*\})', s, re.DOTALL)\<close>, group 1. The search takes the leftmost
  position where the tag and an opening brace stand and a closing brace follows somewhere;
  the greedy \<open>.*\<close> (which matches newlines too under DOTALL) runs to the last closing brace
  of the string. \<open>upto_last_brace\<close> cuts a text after its last closing brace.
\<close>

definition upto_last_brace :: "pystr \<Rightarrow> pystr" where
  "upto_last_brace s = rev (dropWhile (\<lambda>c. c \<noteq> 125) (rev s))"

fun search_tag :: "pystr \<Rightarrow> pystr \<Rightarrow> pystr option" where
  "search_tag tag [] = None"
| "search_tag tag (c # cs) =
     (if startswith (c # cs) (tag @ [123]) \<and> 125 \<in> set (drop (length tag + 1) (c # cs))
      then Some (upto_last_brace (drop (length tag) (c # cs)))
      else search_tag tag cs)"

text \<open>
  Lines 250-296: the four searches in the order of the \<open>if\<close>/\<open>elif\<close> chain, then the three
  \<open>startswith\<close> fallbacks, then the defaults of lines 250-251. The result is
  \<open>(msg_type, final_content)\<close>. (The second \<open>elif chess_match\<close> of line 279 repeats the
  condition of line 275 and is never taken.)
\<close>

definition classify :: "pystr \<Rightarrow> pystr \<times> pystr" where
  "classify response_content =
     (case search_tag (lit ''GUI_PIPELINE_DIAGRAM:'') response_content of
        Some g \<Rightarrow> (lit ''gui_pipeline_diagram'', g)
      | None \<Rightarrow>
     (case search_tag (lit ''GUI_ML_DASHBOARD:'') response_content of
        Some g \<Rightarrow> (lit ''gui_ml_dashboard'', g)
      | None \<Rightarrow>
     (case search_tag (lit ''GUI_PLOT:'') response_content of
        Some g \<Rightarrow> (lit ''gui_plot'', g)
      | None \<Rightarrow>
     (case search_tag (lit ''GUI_CHESS:'') response_content of
        Some g \<Rightarrow> (lit ''gui_chess'', g)
      | None \<Rightarrow>
     (if startswith response_content (lit ''GUI_PLOT:'') then
        (lit ''gui_plot'', drop 9 response_content)
      else if startswith response_content (lit ''GUI_PIPELINE_DIAGRAM:'') then
        (lit ''gui_pipeline_diagram'', drop 21 response_content)
      else if startswith response_content (lit ''GUI_ML_DASHBOARD:'') then
        (lit ''gui_ml_dashboard'', drop 17 response_content)
      else (lit ''response'', response_content))))))"

text \<open>Lines 298-305: the reply dict and its record text.\<close>

definition reply :: "json \<Rightarrow> pystr \<Rightarrow> pystr \<Rightarrow> json" where
  "reply msg_id msg_type final_content =
     JDict [(lit ''id'', msg_id), (lit ''target'', JStr (lit ''shell'')),
            (lit ''msg_type'', JStr msg_type), (lit ''content'', JStr final_content)]"

definition resp_str :: "json \<Rightarrow> pystr \<Rightarrow> pystr" where
  "resp_str msg_id response_content =
     (case classify response_content of
        (msg_type, final_content) \<Rightarrow> json_dumps (reply msg_id msg_type final_content) @ [10])"

subsection \<open>The handler dispatch (lines 111-248)\<close>

text \<open>
  \<open>str.strip()\<close> removes the characters for which \<open>str.isspace\<close> holds from both ends;
  \<open>s.replace(old, '')\<close> removes the occurrences of a non-empty \<open>old\<close> from left to right.
\<close>

definition is_space :: "nat \<Rightarrow> bool" where
  "is_space c =
     ((9 \<le> c \<and> c \<le> 13) \<or> (28 \<le> c \<and> c \<le> 32) \<or> c = 0x85 \<or> c = 0xA0 \<or> c = 0x1680
      \<or> (0x2000 \<le> c \<and> c \<le> 0x200A) \<or> c = 0x2028 \<or> c = 0x2029 \<or> c = 0x202F
      \<or> c = 0x205F \<or> c = 0x3000)"

definition strip :: "pystr \<Rightarrow> pystr" where
  "strip s = rev (dropWhile is_space (rev (dropWhile is_space s)))"

function remove_all :: "pystr \<Rightarrow> pystr \<Rightarrow> pystr" where
  "remove_all old s =
     (if s = [] \<or> old = [] then s
      else if startswith s old then remove_all old (drop (length old) s)
      else hd s # remove_all old (tl s))"
  by pat_completeness auto
termination
  by (relation "measure (\<lambda>(old, s). length s)") auto

declare remove_all.simps [simp del]

text \<open>
  \<open>json.loads\<close> returns a value, raises JSONDecodeError, or raises something else
  (RecursionError on deep nesting, ValueError on an integer of too many digits).
\<close>

datatype loads_result = Loaded json | JSONDecodeError | LoadsRaised

text \<open>
  The tools and the agent graph are outside the bridge. \<open>invoke tool tick argument\<close> is
  the payloads the tool writes to the descriptor while it runs, and the text the call
  returns (\<open>Inr\<close>) or the message of the exception it raises (\<open>Inl\<close>).
  \<open>Chess\<close> and \<open>Psych\<close> are invoked with \<open>{}\<close>, here the empty text.
\<close>

record world =
  os_read :: "nat \<Rightarrow> read_result"
  os_write :: "nat \<Rightarrow> byte list \<Rightarrow> write_result"
  path_exists :: "nat \<Rightarrow> bool"
  json_loads :: "pystr \<Rightarrow> loads_result"
  str_lower :: "pystr \<Rightarrow> pystr"
  invoke :: "tool \<Rightarrow> nat \<Rightarrow> pystr \<Rightarrow> byte list list \<times> (pystr + pystr)"
  graph_ready :: bool

text \<open>
  \<open>print\<close> of a text on the UTF-8 standard output raises UnicodeEncodeError when the text
  holds a surrogate code point. In an f-string a \<open>str\<close> stands as it is; every other JSON
  value is shown by its \<open>repr\<close>, which escapes surrogates, or is ASCII.
\<close>

definition has_surrogate :: "pystr \<Rightarrow> bool" where
  "has_surrogate s = list_ex (\<lambda>c. 0xD800 \<le> c \<and> c \<le> 0xDFFF) s"

definition format_raises :: "json \<Rightarrow> bool" where
  "format_raises v = (case v of JStr s \<Rightarrow> has_surrogate s | _ \<Rightarrow> False)"

text \<open>
  A direct tool call (lines 124, 130, 136, 142, 150-155) stands outside any \<open>try\<close>: what
  the tool raises leaves the block. The result is the call with the writes of the tool,
  the tick and the value of \<open>response_content\<close> or the exception.
\<close>

definition direct :: "world \<Rightarrow> tool \<Rightarrow> pystr \<Rightarrow> nat \<Rightarrow> event list \<times> nat \<times> (exn + pystr)" where
  "direct w tool arg t =
     (case invoke w tool t arg of
        (tool_writes, res) \<Rightarrow>
          (ECall tool arg # map EToolWrite tool_writes, Suc t,
           (case res of Inl m \<Rightarrow> Inl (ToolError m) | Inr r \<Rightarrow> Inr r)))"

definition calc_ops :: "pystr list" where
  "calc_ops = [lit ''+'', lit ''-'', lit ''*'', lit ''/'', lit ''^'', lit ''sqrt'', lit ''sin'', lit ''cos'']"

text \<open>
  Lines 117-248. In the branch of the graph the \<open>except\<close> of line 243 turns an exception
  into the text \<open>Agent Error: ...\<close>; line 245 then prints the exception, and what that
  \<open>print\<close> raises leaves the handler.
\<close>

definition dispatch :: "world \<Rightarrow> pystr \<Rightarrow> nat \<Rightarrow> event list \<times> nat \<times> (exn + pystr)" where
  "dispatch w user_prompt t =
     (let prompt_lower = str_lower w user_prompt in
      if contains prompt_lower (lit ''plot'')
         \<and> (contains prompt_lower (lit ''='') \<or> contains prompt_lower (lit ''sin'')
            \<or> contains prompt_lower (lit ''cos''))
      then direct w Plot user_prompt t
      else if contains prompt_lower (lit ''calculate'')
         \<or> (contains prompt_lower (lit ''what is'') \<and> list_ex (contains user_prompt) calc_ops)
      then direct w Calculator
             (strip (remove_all (lit ''calculate'') (remove_all (lit ''what is'') user_prompt))) t
      else if contains prompt_lower (lit ''chess'') \<or> contains prompt_lower (lit ''chess battle'')
      then direct w Chess [] t
      else if contains prompt_lower (lit ''agent test'') \<or> contains prompt_lower (lit ''psych test'')
         \<or> contains prompt_lower (lit ''psychology test'')
      then direct w Psych [] t
      else if contains prompt_lower (lit ''music'')
         \<or> (contains prompt_lower (lit ''play'') \<and> \<not> contains prompt_lower (lit ''chess''))
      then direct w Music prompt_lower t
      else if graph_ready w then
        (case invoke w Graph t user_prompt of
           (tool_writes, res) \<Rightarrow>
             (ECall Graph user_prompt # map EToolWrite tool_writes, Suc t,
              (case res of
                 Inl m \<Rightarrow>
                   if has_surrogate m then Inl UnicodeEncodeError
                   else Inr (lit ''Agent Error: '' @ m)
               | Inr r \<Rightarrow> Inr r)))
      else ([], t, Inr (lit ''Agent not initialized'')))"

text \<open>
  Lines 111-326 for a decoded dict whose \<open>msg_type\<close> is \<open>'task'\<close>:
  \<^verbatim>\<open>
    user_prompt = msg.get('content', '')
    msg_id = msg.get('id')
    print(f">>> Processing task #{msg_id}: {user_prompt}")
    prompt_lower = user_prompt.lower()
  \<close>
  The \<open>print\<close> of line 115 raises on a surrogate in either value; \<open>user_prompt.lower()\<close>
  raises AttributeError when \<open>content\<close> is not a string. The result is the events (the
  call of the handler with the writes of the tool, then the writes and sleeps of the reply),
  the tick and how the block ended.
\<close>

definition handle_task ::
  "world \<Rightarrow> (pystr \<times> json) list \<Rightarrow> nat \<Rightarrow> event list \<times> nat \<times> outcome"
where
  "handle_task w msg t =
     (if format_raises (dict_get msg (lit ''id'') JNull)
         \<or> format_raises (dict_get msg (lit ''content'') (JStr []))
      then ([], t, Raised UnicodeEncodeError)
      else
        (case dict_get msg (lit ''content'') (JStr []) of
           JStr user_prompt \<Rightarrow>
             (case dispatch w user_prompt t of
                (cs, t', Inl e) \<Rightarrow> (cs, t', Raised e)
              | (cs, t', Inr response_content) \<Rightarrow>
                  (case send (os_write w)
                          (resp_str (dict_get msg (lit ''id'') JNull) response_content) t' of
                     (evs, t'', out) \<Rightarrow> (cs @ evs, t'', out)))
         | _ \<Rightarrow> ([], t, Raised AttributeError)))"

text \<open>
  Lines 100-111 for one line split off the buffer:
  \<^verbatim>\<open>
    line = line.strip()
    if not line:
        continue
    try:
        msg = json.loads(line)
    except json.JSONDecodeError:
        continue
    print(f"\n>>> Received: {json.dumps(msg, indent=2)}")
    if msg.get('msg_type') == 'task':
  \<close>
  Another exception of \<open>json.loads\<close> leaves the block; the text of line 109 is ASCII;
  \<open>msg.get\<close> raises AttributeError when the decoded value is not a dict.
\<close>

definition handle_line :: "world \<Rightarrow> pystr \<Rightarrow> nat \<Rightarrow> event list \<times> nat \<times> outcome" where
  "handle_line w line t =
     (if strip line = [] then ([], t, Normal)
      else
        (case json_loads w (strip line) of
           JSONDecodeError \<Rightarrow> ([], t, Normal)
         | LoadsRaised \<Rightarrow> ([], t, Raised LoadsException)
         | Loaded (JDict msg) \<Rightarrow>
             (if map_of msg (lit ''msg_type'') = Some (JStr (lit ''task''))
              then handle_task w msg t
              else ([], t, Normal))
         | Loaded _ \<Rightarrow> ([], t, Raised AttributeError)))"

subsection \<open>The framing loop (lines 98-113) and the read (lines 71-90)\<close>

text \<open>
  \<open>data.decode('utf-8', errors='ignore')\<close> (line 76): where a well-formed UTF-8 sequence
  starts, its code point is produced; any other byte is dropped. A sequence cut off by the
  end of the data is dropped as well: each read is decoded on its own. \<open>seq_at b0 bs\<close> is
  the code point of the multi-byte sequence that starts with \<open>b0\<close> and the number of
  bytes it takes from \<open>bs\<close>.
\<close>

definition cont :: "byte \<Rightarrow> bool" where
  "cont b = (0x80 \<le> b \<and> b \<le> 0xBF)"

definition seq_at :: "byte \<Rightarrow> byte list \<Rightarrow> (nat \<times> nat) option" where
  "seq_at b0 bs =
     (if 0xC2 \<le> b0 \<and> b0 \<le> 0xDF then
        (case bs of
           b1 # _ \<Rightarrow>
             if cont b1 then Some ((unat b0 - 0xC0) * 64 + (unat b1 - 0x80), 1) else None
         | _ \<Rightarrow> None)
      else if 0xE0 \<le> b0 \<and> b0 \<le> 0xEF then
        (case bs of
           b1 # b2 # _ \<Rightarrow>
             if cont b1 \<and> (b0 = 0xE0 \<longrightarrow> 0xA0 \<le> b1) \<and> (b0 = 0xED \<longrightarrow> b1 \<le> 0x9F) \<and> cont b2
             then Some ((unat b0 - 0xE0) * 4096 + (unat b1 - 0x80) * 64 + (unat b2 - 0x80), 2)
             else None
         | _ \<Rightarrow> None)
      else if 0xF0 \<le> b0 \<and> b0 \<le> 0xF4 then
        (case bs of
           b1 # b2 # b3 # _ \<Rightarrow>
             if cont b1 \<and> (b0 = 0xF0 \<longrightarrow> 0x90 \<le> b1) \<and> (b0 = 0xF4 \<longrightarrow> b1 \<le> 0x8F) \<and> cont b2
                \<and> cont b3
             then Some ((unat b0 - 0xF0) * 262144 + (unat b1 - 0x80) * 4096
                        + (unat b2 - 0x80) * 64 + (unat b3 - 0x80), 3)
             else None
         | _ \<Rightarrow> None)
      else None)"

function utf8_decode_ignore :: "byte list \<Rightarrow> pystr" where
  "utf8_decode_ignore [] = []"
| "utf8_decode_ignore (b0 # bs) =
     (if b0 < 0x80 then unat b0 # utf8_decode_ignore bs
      else
        (case seq_at b0 bs of
           Some (cp, n) \<Rightarrow> cp # utf8_decode_ignore (drop n bs)
         | None \<Rightarrow> utf8_decode_ignore bs))"
  by pat_completeness auto
termination
  by (relation "measure length") auto

text \<open>
  The inner loop (lines 98-326):
  \<^verbatim>\<open>
    while '\n' in read_buffer:
        line, read_buffer = read_buffer.split('\n', 1)
        ...
  \<close>
  The result is the events, the buffer left, the tick and how the loop ended.
\<close>

definition not_nl :: "nat \<Rightarrow> bool" where
  "not_nl c = (c \<noteq> 10)"

function drain :: "world \<Rightarrow> pystr \<Rightarrow> nat \<Rightarrow> event list \<times> pystr \<times> nat \<times> outcome" where
  "drain w read_buffer t =
     (if 10 \<in> set read_buffer then
        (case handle_line w (takeWhile not_nl read_buffer) t of
           (evs, t', Raised e) \<Rightarrow> (evs, tl (dropWhile not_nl read_buffer), t', Raised e)
         | (evs, t', Normal) \<Rightarrow>
             (case drain w (tl (dropWhile not_nl read_buffer)) t' of
                (evs', buf, t'', out) \<Rightarrow> (evs @ evs', buf, t'', out)))
      else ([], read_buffer, t, Normal))"
  by pat_completeness auto
termination
proof (relation "measure (\<lambda>(w, b, t). length b)")
  show "wf (measure (\<lambda>(w, b, t). length b))" by simp
next
  fix w :: "'a world_scheme" and read_buffer :: pystr and t :: nat
  assume "10 \<in> set read_buffer"
  then have "dropWhile not_nl read_buffer \<noteq> []"
    by (auto simp: not_nl_def)
  moreover have "length (dropWhile not_nl read_buffer) \<le> length read_buffer"
    by (rule length_dropWhile_le)
  ultimately have "length (tl (dropWhile not_nl read_buffer)) < length read_buffer"
    by (cases "dropWhile not_nl read_buffer") auto
  then show "\<And>x xa y xb. ((w, tl (dropWhile not_nl read_buffer), xa), w, read_buffer, t)
       \<in> measure (\<lambda>(w, b, t). length b)"
    by simp
qed

declare drain.simps [simp del]

text \<open>
  The framer alone: lines 98-102 without the decoding and the dispatch. \<open>frame\<close> gives the
  records of a buffer (the stripped, non-empty lines, in order) and the text left after
  the last newline. \<open>feeds\<close> runs it over a sequence of reads: each read is decoded and
  appended to the buffer (line 76), then the buffer is drained (line 98).
\<close>

function frame :: "pystr \<Rightarrow> pystr list \<times> pystr" where
  "frame read_buffer =
     (if 10 \<in> set read_buffer then
        (case frame (tl (dropWhile not_nl read_buffer)) of
           (records, rest) \<Rightarrow>
             (if strip (takeWhile not_nl read_buffer) = [] then (records, rest)
              else (strip (takeWhile not_nl read_buffer) # records, rest)))
      else ([], read_buffer))"
  by pat_completeness auto
termination
proof (relation "measure length")
  show "wf (measure length)" by simp
next
  fix read_buffer :: pystr
  assume "10 \<in> set read_buffer"
  then have "dropWhile not_nl read_buffer \<noteq> []"
    by (auto simp: not_nl_def)
  moreover have "length (dropWhile not_nl read_buffer) \<le> length read_buffer"
    by (rule length_dropWhile_le)
  ultimately have "length (tl (dropWhile not_nl read_buffer)) < length read_buffer"
    by (cases "dropWhile not_nl read_buffer") auto
  then show "(tl (dropWhile not_nl read_buffer), read_buffer) \<in> measure length"
    by simp
qed

declare frame.simps [simp del]

fun feeds :: "pystr \<Rightarrow> byte list list \<Rightarrow> pystr list \<times> pystr" where
  "feeds read_buffer [] = ([], read_buffer)"
| "feeds read_buffer (data # later) =
     (case frame (read_buffer @ utf8_decode_ignore data) of
        (records, rest) \<Rightarrow>
          (case feeds rest later of (records', rest') \<Rightarrow> (records @ records', rest')))"

subsection \<open>One iteration of the bridge loop (lines 70-96 and 331)\<close>

record bridge =
  read_buffer :: pystr
  heartbeat_counter :: nat
  tick :: nat

text \<open>
  How an iteration leaves the loop: it goes on (\<open>Running\<close>), the \<open>break\<close> of line 88 ends
  it (\<open>Stopped\<close>), or an exception reaches the handlers of lines 333-337, which end it
  too (\<open>Failed\<close>); in both cases line 339 closes the descriptor.
\<close>

datatype status = Running | Stopped | Failed exn

text \<open>
  Lines 71-90:
  \<^verbatim>\<open>
    try:
        data = os.read(fd, 4096)
        if data:
            read_buffer += data.decode('utf-8', errors='ignore')
    except BlockingIOError:
        pass
    except OSError as e:
        if e.errno == 35:
            pass
        elif e.errno == 5:
            time.sleep(2)
            if not os.path.exists(device_path):
                break
        else:
            raise
  \<close>
\<close>

definition read_step :: "world \<Rightarrow> bridge \<Rightarrow> event list \<times> bridge \<times> status" where
  "read_step w s =
     (case os_read w (tick s) of
        Data bs \<Rightarrow>
          ([], s\<lparr>read_buffer := read_buffer s @ utf8_decode_ignore bs, tick := Suc (tick s)\<rparr>,
           Running)
      | ReadWouldBlock \<Rightarrow> ([], s\<lparr>tick := Suc (tick s)\<rparr>, Running)
      | ReadOSError e \<Rightarrow>
          (if e = 35 then ([], s\<lparr>tick := Suc (tick s)\<rparr>, Running)
           else if e = 5 then
             ([ESleep 2000], s\<lparr>tick := Suc (Suc (tick s))\<rparr>,
              if path_exists w (Suc (tick s)) then Running else Stopped)
           else ([], s\<lparr>tick := Suc (tick s)\<rparr>, Failed (OSError e))))"

text \<open>Lines 93-96.\<close>

definition heartbeat :: "bridge \<Rightarrow> event list \<times> bridge" where
  "heartbeat s =
     (if heartbeat_counter s + 1 \<ge> 1000 then ([EHeartbeat], s\<lparr>heartbeat_counter := 0\<rparr>)
      else ([], s\<lparr>heartbeat_counter := heartbeat_counter s + 1\<rparr>))"

definition iteration :: "world \<Rightarrow> bridge \<Rightarrow> event list \<times> bridge \<times> status" where
  "iteration w s =
     (case read_step w s of
        (evs, s1, Running) \<Rightarrow>
          (case heartbeat s1 of
             (hb, s2) \<Rightarrow>
               (case drain w (read_buffer s2) (tick s2) of
                  (evs', buf, t, Raised e) \<Rightarrow>
                    (evs @ hb @ evs', s2\<lparr>read_buffer := buf, tick := t\<rparr>, Failed e)
                | (evs', buf, t, Normal) \<Rightarrow>
                    (evs @ hb @ evs' @ [ESleep 10], s2\<lparr>read_buffer := buf, tick := t\<rparr>, Running)))
      | (evs, s1, st) \<Rightarrow> (evs, s1, st))"

text \<open>
  The loop \<open>while True\<close> of line 70, run for at most \<open>n\<close> iterations from the state of
  lines 62 and 68.
\<close>

fun run :: "world \<Rightarrow> nat \<Rightarrow> bridge \<Rightarrow> event list \<times> bridge \<times> status" where
  "run w 0 s = ([], s, Running)"
| "run w (Suc n) s =
     (case iteration w s of
        (evs, s', Running) \<Rightarrow> (case run w n s' of (evs', s'', st) \<Rightarrow> (evs @ evs', s'', st))
      | (evs, s', st) \<Rightarrow> (evs, s', st))"

definition initial :: bridge where
  "initial = \<lparr>read_buffer = [], heartbeat_counter = 0, tick = 0\<rparr>"

subsection \<open>Reading a trace\<close>

text \<open>
  The payloads of the loop's own calls of \<open>os.write\<close> in a trace, in order (the writes of
  a tool are not among them); whether every such call is directly followed by the pacing
  delay of line 326; and the bytes of an ASCII text.
\<close>

fun writes :: "event list \<Rightarrow> byte list list" where
  "writes [] = []"
| "writes (EWrite bs r # es) = bs # writes es"
| "writes (e # es) = writes es"

fun paced :: "event list \<Rightarrow> bool" where
  "paced [] = True"
| "paced (EWrite bs r # ESleep d # es) = (d = 20 \<and> paced es)"
| "paced (EWrite bs r # es) = False"
| "paced (e # es) = paced es"

definition ascii_bytes :: "pystr \<Rightarrow> byte list" where
  "ascii_bytes s = map of_nat s"

text \<open>
  The consecutive chunks of at most 32 bytes of a byte sequence, as the specification
  describes the split of a record's byte encoding. (The source slices the text and encodes
  each slice.)
\<close>

function byte_chunks :: "byte list \<Rightarrow> byte list list" where
  "byte_chunks bs = (if bs = [] then [] else take 32 bs # byte_chunks (drop 32 bs))"
  by pat_completeness auto
termination
  by (relation "measure length") auto

declare byte_chunks.simps [simp del]

text \<open>
  What the trace of a send that ran to its end looks like, chunk by chunk. For one chunk:
  at most \<open>r\<close> calls of \<open>os.write\<close> with the chunk, each refused one followed by the 10 ms
  backoff, ended by the first accepted call or after the \<open>r\<close>-th refusal;
  \<open>attempts bs r es\<close> is what is left of the trace \<open>es\<close> after them. For the list of chunks:
  the attempts at each chunk in order, followed by the 20 ms delay.
\<close>

fun attempts :: "byte list \<Rightarrow> nat \<Rightarrow> event list \<Rightarrow> event list option" where
  "attempts bs 0 es = Some es"
| "attempts bs (Suc r) (EWrite b (Written n) # es) = (if b = bs then Some es else None)"
| "attempts bs (Suc r) (EWrite b WriteWouldBlock # ESleep d # es) =
     (if b = bs \<and> d = 10 then attempts bs r es else None)"
| "attempts bs (Suc r) es = None"

fun follows_plan :: "byte list list \<Rightarrow> event list \<Rightarrow> bool" where
  "follows_plan [] es = (es = [])"
| "follows_plan (bs # plan) es =
     (case attempts bs 3 es of
        Some (ESleep d # es') \<Rightarrow> d = 20 \<and> follows_plan plan es'
      | _ \<Rightarrow> False)"

subsection \<open>The tags of the specification\<close>

text \<open>
  The tag prefixes with their \<open>msg_type\<close>, in the priority order the specification
  gives. A text carries a tag with a braced payload when the tag, directly followed by an
  opening brace, stands somewhere in it and a closing brace stands somewhere after that
  brace. A text is untagged when it carries no tag with a braced payload and does not
  begin with one of the three tags that are also recognised without braces (the tags of
  lines 285-296: all but the chess tag).
\<close>

definition tag_table :: "(pystr \<times> pystr) list" where
  "tag_table =
     [(lit ''GUI_PIPELINE_DIAGRAM:'', lit ''gui_pipeline_diagram''),
      (lit ''GUI_ML_DASHBOARD:'', lit ''gui_ml_dashboard''),
      (lit ''GUI_PLOT:'', lit ''gui_plot''),
      (lit ''GUI_CHESS:'', lit ''gui_chess'')]"

definition braced_at :: "pystr \<Rightarrow> pystr \<Rightarrow> nat \<Rightarrow> bool" where
  "braced_at tag s i =
     (startswith (drop i s) (tag @ [123]) \<and> 125 \<in> set (drop (i + length tag + 1) s))"

definition tag_braced :: "pystr \<Rightarrow> pystr \<Rightarrow> bool" where
  "tag_braced tag s = list_ex (braced_at tag s) [0..<length s]"

definition untagged :: "pystr \<Rightarrow> bool" where
  "untagged r =
     (list_all (\<lambda>row. \<not> tag_braced (fst row) r) tag_table
      \<and> list_all (\<lambda>row. \<not> startswith r (fst row)) (take 3 tag_table))"

subsection \<open>Reads that split a character\<close>

text \<open>
  Whether a read cuts a character of the stream in two: \<open>data\<close> is the read and \<open>rest\<close>
  the bytes that follow it in the stream. The bytes are gone through as the decoder goes
  through the stream; the read splits a character when a well-formed multi-byte sequence
  of the stream begins in \<open>data\<close> and ends in \<open>rest\<close>. \<open>clean_splits\<close> says that no read
  of a sequence of reads does.
\<close>

function splits_char :: "byte list \<Rightarrow> byte list \<Rightarrow> bool" where
  "splits_char [] rest = False"
| "splits_char (b0 # bs) rest =
     (if b0 < 0x80 then splits_char bs rest
      else
        (case seq_at b0 (bs @ rest) of
           Some (cp, n) \<Rightarrow> (if n \<le> length bs then splits_char (drop n bs) rest else True)
         | None \<Rightarrow> splits_char bs rest))"
  by pat_completeness auto
termination
  by (relation "measure (\<lambda>(d, r). length d)") auto

fun clean_splits :: "byte list list \<Rightarrow> bool" where
  "clean_splits [] = True"
| "clean_splits (data # later) = (\<not> splits_char data (concat later) \<and> clean_splits later)"

subsection \<open>Sample inputs\<close>

text \<open>
  Concrete inputs on which the theorems are evaluated: channels that accept every write,
  refuse the first one, or have lost the peer; three lines with the values \<open>json.loads\<close>
  gives for them; \<open>str.lower\<close> on ASCII text; a world whose first read delivers a given
  line and whose handlers return \<open>ok\<close>; and a world whose channel delivers the beginning
  of a record and is then disconnected.
\<close>

definition accepting :: "nat \<Rightarrow> byte list \<Rightarrow> write_result" where
  "accepting k b = Written (length b)"

definition refusing_once :: "nat \<Rightarrow> byte list \<Rightarrow> write_result" where
  "refusing_once k b = (if k = 0 then WriteWouldBlock else Written (length b))"

definition peer_gone :: "nat \<Rightarrow> byte list \<Rightarrow> write_result" where
  "peer_gone k b = WriteOSError 5"

definition task_line :: pystr where
  "task_line = lit ''{\"id\": 42, \"target\": \"kernel\", \"msg_type\": \"task\", \"content\": \"hi\"}''"

definition demo_task :: "(pystr \<times> json) list" where
  "demo_task =
     [(lit ''id'', JInt 42), (lit ''target'', JStr (lit ''kernel'')),
      (lit ''msg_type'', JStr (lit ''task'')), (lit ''content'', JStr (lit ''hi''))]"

definition number_line :: pystr where
  "number_line = lit ''{\"id\": 7, \"msg_type\": \"task\", \"content\": 5}''"

definition number_task :: "(pystr \<times> json) list" where
  "number_task =
     [(lit ''id'', JInt 7), (lit ''msg_type'', JStr (lit ''task'')), (lit ''content'', JInt 5)]"

definition list_line :: pystr where
  "list_line = lit ''[]''"

definition sample_loads :: "pystr \<Rightarrow> loads_result" where
  "sample_loads s =
     (if s = task_line then Loaded (JDict demo_task)
      else if s = number_line then Loaded (JDict number_task)
      else if s = list_line then Loaded (JList [])
      else JSONDecodeError)"

definition ascii_lower :: "pystr \<Rightarrow> pystr" where
  "ascii_lower s = map (\<lambda>c. if 65 \<le> c \<and> c \<le> 90 then c + 32 else c) s"

definition feed_world :: "pystr \<Rightarrow> (nat \<Rightarrow> byte list \<Rightarrow> write_result) \<Rightarrow> world" where
  "feed_world line wr =
     \<lparr>os_read = (\<lambda>k. if k = 0 then Data (ascii_bytes (line @ [10])) else ReadWouldBlock),
      os_write = wr,
      path_exists = (\<lambda>k. True),
      json_loads = sample_loads,
      str_lower = ascii_lower,
      invoke = (\<lambda>tool k arg. ([], Inr (lit ''ok''))),
      graph_ready = True\<rparr>"

definition recover_world :: world where
  "recover_world =
     \<lparr>os_read = (\<lambda>k. if k = 0 then Data (ascii_bytes (lit ''{\"id\"'')) else ReadOSError 5),
      os_write = accepting,
      path_exists = (\<lambda>k. True),
      json_loads = sample_loads,
      str_lower = ascii_lower,
      invoke = (\<lambda>tool k arg. ([], Inr (lit ''ok''))),
      graph_ready = True\<rparr>"

section \<open>Properties\<close>

subsection \<open>The record text is ASCII\<close>

lemma is_ascii_Nil: "is_ascii []"
  by (simp add: is_ascii_def)

lemma is_ascii_Cons: "is_ascii (c # cs) = (c < 0x80 \<and> is_ascii cs)"
  by (simp add: is_ascii_def)

lemma is_ascii_append: "is_ascii (xs @ ys) = (is_ascii xs \<and> is_ascii ys)"
  by (auto simp: is_ascii_def)

lemma is_ascii_concat: "(\<And>x. x \<in> set xs \<Longrightarrow> is_ascii x) \<Longrightarrow> is_ascii (concat xs)"
  by (auto simp: is_ascii_def)

lemma is_ascii_dec: "is_ascii (dec n)"
proof (induction n rule: dec.induct)
  case (1 n)
  show ?case
  proof (cases "n < 10")
    case True
    then show ?thesis by (subst dec.simps) (simp add: is_ascii_Cons is_ascii_Nil)
  next
    case False
    have "n mod 10 < 10" by simp
    then have "48 + n mod 10 < 128" by linarith
    with False 1 show ?thesis
      by (subst dec.simps) (simp add: is_ascii_append is_ascii_Cons is_ascii_Nil)
  qed
qed

lemma is_ascii_dumps_int: "is_ascii (dumps_int i)"
  by (simp add: dumps_int_def is_ascii_Cons is_ascii_dec)

lemma hex_digit_ascii: "hex_digit (d mod 16) < 0x80"
proof -
  define k where "k = d mod 16"
  have "k < 16" by (simp add: k_def)
  then have "hex_digit k < 0x80" by (simp add: hex_digit_def)
  then show ?thesis by (simp add: k_def)
qed

lemma is_ascii_u_escape: "is_ascii (u_escape n)"
  by (simp add: u_escape_def is_ascii_Cons is_ascii_Nil hex_digit_ascii)

lemma is_ascii_escape_char: "is_ascii (escape_char c)"
  by (simp add: escape_char_def is_ascii_Cons is_ascii_Nil is_ascii_append is_ascii_u_escape)

lemma is_ascii_dumps_str: "is_ascii (dumps_str s)"
proof -
  have "is_ascii (concat (map escape_char s))"
    by (rule is_ascii_concat) (auto simp: is_ascii_escape_char)
  then show ?thesis
    by (simp add: dumps_str_def is_ascii_Cons is_ascii_Nil is_ascii_append)
qed

lemma is_ascii_join:
  "is_ascii sep \<Longrightarrow> (\<And>x. x \<in> set xs \<Longrightarrow> is_ascii x) \<Longrightarrow> is_ascii (join sep xs)"
  by (induction sep xs rule: join.induct) (simp_all add: is_ascii_Nil is_ascii_append)

lemma is_ascii_json_dumps: "is_ascii (json_dumps v)"
proof (induction v rule: json_dumps.induct)
  case (4 r)
  have "Rep_float_repr r \<in> {s. \<forall>c \<in> set s. c < 0x80}" by (rule Rep_float_repr)
  then show ?case by (simp add: is_ascii_def)
next
  case (6 vs)
  have sep: "is_ascii (lit '', '')" by (simp add: lit_def is_ascii_def)
  have "is_ascii (join (lit '', '') (map json_dumps vs))"
    using 6 by (intro is_ascii_join sep) auto
  then show ?case by (simp add: is_ascii_append) (simp add: lit_def is_ascii_def)
next
  case (7 kvs)
  have sep: "is_ascii (lit '', '')" by (simp add: lit_def is_ascii_def)
  have col: "is_ascii (lit '': '')" by (simp add: lit_def is_ascii_def)
  have "is_ascii (join (lit '', '')
          (map (\<lambda>kv. dumps_str (fst kv) @ lit '': '' @ json_dumps (snd kv)) kvs))"
  proof (intro is_ascii_join sep)
    fix x
    assume "x \<in> set (map (\<lambda>kv. dumps_str (fst kv) @ lit '': '' @ json_dumps (snd kv)) kvs)"
    then obtain kv where kv: "kv \<in> set kvs"
      and x: "x = dumps_str (fst kv) @ lit '': '' @ json_dumps (snd kv)"
      by auto
    from 7 [OF kv] show "is_ascii x"
      unfolding x by (simp add: is_ascii_append is_ascii_dumps_str col)
  qed
  then show ?case by (simp add: is_ascii_append) (simp add: lit_def is_ascii_def)
qed (simp_all add: is_ascii_dumps_int is_ascii_dumps_str, simp_all add: lit_def is_ascii_def)

lemma is_ascii_resp_str: "is_ascii (resp_str msg_id response_content)"
  by (simp add: resp_str_def split: prod.splits)
     (simp add: is_ascii_append is_ascii_json_dumps is_ascii_Cons is_ascii_Nil)


subsection \<open>The paced writer\<close>

lemma utf8_encode_cp_ascii: "c < 0x80 \<Longrightarrow> utf8_encode_cp c = Some [of_nat c]"
  by (simp add: utf8_encode_cp_def)

lemma utf8_encode_ascii: "is_ascii s \<Longrightarrow> utf8_encode s = Some (ascii_bytes s)"
  by (induction s) (simp_all add: is_ascii_Cons ascii_bytes_def utf8_encode_cp_ascii)

lemma is_ascii_take_drop: "is_ascii s \<Longrightarrow> is_ascii (take n (drop i s))"
  by (auto simp: is_ascii_def dest: in_set_takeD in_set_dropD)

lemma chunks_from_concat: "concat (chunks_from s i) = drop i s"
proof (induction s i rule: chunks_from.induct)
  case (1 s i)
  show ?case
  proof (cases "i < length s")
    case True
    have "take chunk_size (drop i s) @ drop (i + chunk_size) s = drop i s"
      by (metis add.commute append_take_drop_id drop_drop)
    with True 1 show ?thesis by (subst chunks_from.simps) simp
  next
    case False
    then show ?thesis by (subst chunks_from.simps) simp
  qed
qed

lemma ceil_step: "0 < n \<Longrightarrow> Suc ((n - 32 + 31) div 32) = (n + 31) div (32::nat)"
proof (cases "n < 32")
  case True
  assume "0 < n"
  with True have "(n + 31) div 32 = 1"
    by (intro div_nat_eqI) simp_all
  with True show ?thesis by simp
next
  case False
  then have "n + 31 = (n - 32 + 31) + 32" by simp
  then have "(n + 31) div 32 = (n - 32 + 31) div 32 + 1"
    by (metis div_add_self2 zero_neq_numeral)
  then show ?thesis by simp
qed

lemma chunks_from_length: "length (chunks_from s i) = (length s - i + 31) div 32"
proof (induction s i rule: chunks_from.induct)
  case (1 s i)
  show ?case
  proof (cases "i < length s")
    case True
    then have "length (chunks_from s i) = Suc (length (chunks_from s (i + chunk_size)))"
      by (subst chunks_from.simps) simp
    also have "\<dots> = Suc ((length s - (i + chunk_size) + 31) div 32)"
      using 1 True by simp
    also have "length s - (i + chunk_size) = length s - i - 32"
      by (simp add: chunk_size_def)
    also have "Suc ((length s - i - 32 + 31) div 32) = (length s - i + 31) div 32"
      using True by (intro ceil_step) simp
    finally show ?thesis .
  next
    case False
    then show ?thesis by (subst chunks_from.simps) simp
  qed
qed

lemma chunks_from_bound: "c \<in> set (chunks_from s i) \<Longrightarrow> length c \<le> chunk_size"
proof (induction s i rule: chunks_from.induct)
  case (1 s i)
  show ?case
  proof (cases "i < length s")
    case True
    with 1 show ?thesis by (subst (asm) (2) chunks_from.simps) auto
  next
    case False
    with 1(2) show ?thesis by (subst (asm) chunks_from.simps) simp
  qed
qed

lemma byte_chunks_text:
  "byte_chunks (ascii_bytes (drop i s)) = map ascii_bytes (chunks_from s i)"
proof (induction s i rule: chunks_from.induct)
  case (1 s i)
  show ?case
  proof (cases "i < length s")
    case True
    then have ne: "ascii_bytes (drop i s) \<noteq> []" by (simp add: ascii_bytes_def)
    have t: "take 32 (ascii_bytes (drop i s)) = ascii_bytes (take chunk_size (drop i s))"
      by (simp add: ascii_bytes_def take_map chunk_size_def)
    have d: "drop 32 (ascii_bytes (drop i s)) = ascii_bytes (drop (i + chunk_size) s)"
      by (simp add: ascii_bytes_def drop_map chunk_size_def add.commute)
    have "byte_chunks (ascii_bytes (drop i s)) =
            ascii_bytes (take chunk_size (drop i s))
            # byte_chunks (ascii_bytes (drop (i + chunk_size) s))"
      using ne by (subst byte_chunks.simps) (simp only: t d if_False)
    with True 1 show ?thesis by (subst chunks_from.simps) simp
  next
    case False
    then have "ascii_bytes (drop i s) = []" by (simp add: ascii_bytes_def)
    with False show ?thesis
      by (subst byte_chunks.simps, subst chunks_from.simps) simp
  qed
qed

lemma writes_append: "writes (xs @ ys) = writes xs @ writes ys"
  by (induction xs rule: writes.induct) auto

lemma write_retry_shape:
  "utf8_encode c = Some bs \<Longrightarrow> write_retry wr c r t = (evs, t', out) \<Longrightarrow>
     set (writes evs) \<subseteq> {bs} \<and> length (writes evs) \<le> r
     \<and> (out = Normal \<longrightarrow> attempts bs r (evs @ rest) = Some rest \<and> (0 < r \<longrightarrow> evs \<noteq> [] \<and> writes evs \<noteq> []))
     \<and> (out \<noteq> Normal \<longrightarrow> (\<exists>e k. out = Raised (OSError e) \<and> wr k bs = WriteOSError e))"
proof (induction r arbitrary: t evs t' out)
  case 0
  then show ?case by simp
next
  case (Suc r)
  note enc = \<open>utf8_encode c = Some bs\<close>
  note run = \<open>write_retry wr c (Suc r) t = (evs, t', out)\<close>
  show ?case
  proof (cases "wr t bs")
    case (Written n)
    with enc run show ?thesis by auto
  next
    case (WriteOSError e)
    with enc run show ?thesis by auto
  next
    case WriteWouldBlock
    obtain e1 t1 o1 where r: "write_retry wr c r (Suc t) = (e1, t1, o1)"
      by (cases "write_retry wr c r (Suc t)") auto
    from enc run WriteWouldBlock r
    have evs: "evs = EWrite bs WriteWouldBlock # ESleep 10 # e1" and out: "out = o1"
      by simp_all
    from Suc.IH [OF enc r] show ?thesis
      unfolding evs out by auto
  qed
qed

lemma send_from_shape:
  "is_ascii s \<Longrightarrow> send_from wr s i t = (evs, t', out) \<Longrightarrow>
     set (writes evs) \<subseteq> set (map ascii_bytes (chunks_from s i))
     \<and> length (writes evs) \<le> 3 * length (chunks_from s i)
     \<and> (out = Normal \<longrightarrow>
          follows_plan (map ascii_bytes (chunks_from s i)) evs
          \<and> length (chunks_from s i) \<le> length (writes evs))
     \<and> (out \<noteq> Normal \<longrightarrow> (\<exists>e k b. out = Raised (OSError e) \<and> wr k b = WriteOSError e))"
proof (induction wr s i t arbitrary: evs t' out rule: send_from.induct)
  case (1 wr s i t)
  note asc = \<open>is_ascii s\<close>
  note run = \<open>send_from wr s i t = (evs, t', out)\<close>
  show ?case
  proof (cases "i < length s")
    case False
    then have ch: "chunks_from s i = []" by (subst chunks_from.simps) simp
    from run False show ?thesis
      unfolding ch by (subst (asm) send_from.simps) auto
  next
    case True
    let ?c = "take chunk_size (drop i s)"
    let ?bs = "ascii_bytes ?c"
    have enc: "utf8_encode ?c = Some ?bs"
      by (rule utf8_encode_ascii [OF is_ascii_take_drop [OF asc]])
    have ch: "chunks_from s i = ?c # chunks_from s (i + chunk_size)"
      using True by (subst chunks_from.simps) simp
    obtain e1 t1 o1 where w: "write_retry wr ?c 3 t = (e1, t1, o1)"
      by (cases "write_retry wr ?c 3 t") auto
    show ?thesis
    proof (cases o1)
      case (Raised x)
      with run True w have evs: "evs = e1" and out: "out = Raised x"
        by (subst (asm) send_from.simps, simp)+
      from write_retry_shape [OF enc w, of "[]"] Raised show ?thesis
        unfolding evs out ch by auto
    next
      case Normal
      obtain e2 t2 o2 where r: "send_from wr s (i + chunk_size) t1 = (e2, t2, o2)"
        by (cases "send_from wr s (i + chunk_size) t1") auto
      from run True w Normal r have evs: "evs = e1 @ ESleep 20 # e2" and out: "out = o2"
        by (subst (asm) send_from.simps, simp)+
      note IH = "1.IH" [OF True w [symmetric] refl Normal asc r]
      from write_retry_shape [OF enc w, of "ESleep 20 # e2"] Normal
      have a: "set (writes e1) \<subseteq> {?bs}" "length (writes e1) \<le> 3"
        "attempts ?bs 3 (e1 @ ESleep 20 # e2) = Some (ESleep 20 # e2)" "writes e1 \<noteq> []"
        by simp_all
      from a(4) have pos: "1 \<le> length (writes e1)" by (cases "writes e1") simp_all
      have wr: "writes evs = writes e1 @ writes e2"
        unfolding evs by (simp add: writes_append)
      have plan: "o2 = Normal \<Longrightarrow> follows_plan (map ascii_bytes (chunks_from s i)) evs"
        using IH a(3) unfolding ch evs by simp
      show ?thesis
        using IH a(1,2) pos plan unfolding wr out by (auto simp: ch)
    qed
  qed
qed

lemma send_from_accepted:
  "is_ascii s \<Longrightarrow> \<forall>k\<ge>t. \<forall>b. \<exists>n. wr k b = Written n \<Longrightarrow> send_from wr s i t = (evs, t', out) \<Longrightarrow>
         out = Normal \<and> writes evs = map ascii_bytes (chunks_from s i) \<and> paced evs"
proof (induction wr s i t arbitrary: evs t' out rule: send_from.induct)
  case (1 wr s i t)
  note asc = \<open>is_ascii s\<close> and acc = \<open>\<forall>k\<ge>t. \<forall>b. \<exists>n. wr k b = Written n\<close>
  note run = \<open>send_from wr s i t = (evs, t', out)\<close>
  show ?case
  proof (cases "i < length s")
    case False
    with run show ?thesis
      by (subst (asm) send_from.simps, subst chunks_from.simps) auto
  next
    case True
    let ?c = "take chunk_size (drop i s)"
    have enc: "utf8_encode ?c = Some (ascii_bytes ?c)"
      by (rule utf8_encode_ascii [OF is_ascii_take_drop [OF asc]])
    obtain n where n: "wr t (ascii_bytes ?c) = Written n" using acc by blast
    have wr3: "write_retry wr ?c 3 t = ([EWrite (ascii_bytes ?c) (Written n)], Suc t, Normal)"
      using enc n by (simp add: numeral_3_eq_3)
    have acc': "\<forall>k\<ge>Suc t. \<forall>b. \<exists>n. wr k b = Written n" using acc by auto
    obtain evs' t'' out' where rest: "send_from wr s (i + chunk_size) (Suc t) = (evs', t'', out')"
      by (cases "send_from wr s (i + chunk_size) (Suc t)") auto
    have IH: "out' = Normal \<and> writes evs' = map ascii_bytes (chunks_from s (i + chunk_size)) \<and> paced evs'"
      using "1.IH" [OF True wr3 [symmetric] refl refl asc acc' rest] .
    have "send_from wr s i t = (EWrite (ascii_bytes ?c) (Written n) # ESleep 20 # evs', t'', out')"
      using True wr3 rest by (subst send_from.simps) simp
    with run have "evs = EWrite (ascii_bytes ?c) (Written n) # ESleep 20 # evs'" "out = out'"
      by simp_all
    with IH True show ?thesis
      by (subst chunks_from.simps) simp
  qed
qed


lemma record_chunks:
  assumes "is_ascii s"
  shows "utf8_encode s = Some (ascii_bytes s)"
    and "byte_chunks (ascii_bytes s) = map ascii_bytes (chunks_from s 0)"
    and "concat (byte_chunks (ascii_bytes s)) = ascii_bytes s"
    and "length (byte_chunks (ascii_bytes s)) = (length (ascii_bytes s) + 31) div 32"
    and "\<forall>c \<in> set (byte_chunks (ascii_bytes s)). length c \<le> 32"
proof -
  show "utf8_encode s = Some (ascii_bytes s)" by (rule utf8_encode_ascii [OF assms])
  show eq: "byte_chunks (ascii_bytes s) = map ascii_bytes (chunks_from s 0)"
    using byte_chunks_text [of 0 s] by simp
  have "concat (map ascii_bytes xs) = ascii_bytes (concat xs)" for xs
    by (induction xs) (simp_all add: ascii_bytes_def)
  then show "concat (byte_chunks (ascii_bytes s)) = ascii_bytes s"
    unfolding eq by (simp add: chunks_from_concat)
  show "length (byte_chunks (ascii_bytes s)) = (length (ascii_bytes s) + 31) div 32"
    unfolding eq by (simp add: chunks_from_length ascii_bytes_def)
  show "\<forall>c \<in> set (byte_chunks (ascii_bytes s)). length c \<le> 32"
    unfolding eq using chunks_from_bound [of _ s 0] by (auto simp: ascii_bytes_def chunk_size_def)
qed

lemma sample_record:
  "resp_str (JInt 42) (lit ''ok'') =
     lit ''{\"id\": 42, \"target\": \"shell\", \"msg_type\": \"response\", \"content\": \"ok\"}'' @ [10]"
  by code_simp

lemma sample_record_length: "length (resp_str (JInt 42) (lit ''ok'')) = 71"
  unfolding sample_record by (simp add: lit_def)

text \<open>
  Claim C3 as stated fails: the number of writes is not \<open>ceil(L/32)\<close> for every send. The
  retry loop of lines 317-324 calls \<open>os.write\<close> again after a BlockingIOError, so when the
  first call is refused the 71-byte record of the reply \<open>ok\<close> to task 42 takes four writes,
  not three, and the refused write is followed by the 10 ms backoff, not the pacing delay.
\<close>

theorem paced_writer_counterexample:
  "\<not> (\<forall>wr msg_id response_content t.
         length (writes (fst (send wr (resp_str msg_id response_content) t)))
           = (length (ascii_bytes (resp_str msg_id response_content)) + 31) div 32
         \<and> paced (fst (send wr (resp_str msg_id response_content) t)))"
proof
  let ?s = "resp_str (JInt 42) (lit ''ok'')"
  let ?c = "take chunk_size (drop 0 ?s)"
  assume "\<forall>wr msg_id response_content t.
         length (writes (fst (send wr (resp_str msg_id response_content) t)))
           = (length (ascii_bytes (resp_str msg_id response_content)) + 31) div 32
         \<and> paced (fst (send wr (resp_str msg_id response_content) t))"
  then have claimed: "length (writes (fst (send refusing_once ?s 0)))
           = (length (ascii_bytes ?s) + 31) div 32"
    by blast
  have asc: "is_ascii ?s" by (rule is_ascii_resp_str)
  have enc: "utf8_encode ?c = Some (ascii_bytes ?c)"
    by (rule utf8_encode_ascii [OF is_ascii_take_drop [OF asc]])
  have first: "write_retry refusing_once ?c (Suc (Suc (Suc 0))) 0 =
      ([EWrite (ascii_bytes ?c) WriteWouldBlock, ESleep 10,
        EWrite (ascii_bytes ?c) (Written (length (ascii_bytes ?c)))], Suc (Suc 0), Normal)"
    using enc by (simp add: refusing_once_def)
  obtain e2 t2 o2 where rest:
    "send_from refusing_once ?s (0 + chunk_size) (Suc (Suc 0)) = (e2, t2, o2)"
    by (cases "send_from refusing_once ?s (0 + chunk_size) (Suc (Suc 0))") auto
  have "\<forall>k\<ge>Suc (Suc 0). \<forall>b. \<exists>n. refusing_once k b = Written n"
    by (simp add: refusing_once_def)
  from send_from_accepted [OF asc this rest]
  have w2: "writes e2 = map ascii_bytes (chunks_from ?s (0 + chunk_size))" by simp
  have two: "length (writes e2) = 2"
    unfolding w2 length_map chunks_from_length sample_record_length chunk_size_def by simp
  have pos: "0 < length ?s" unfolding sample_record_length by simp
  have "send_from refusing_once ?s 0 0 =
      ([EWrite (ascii_bytes ?c) WriteWouldBlock, ESleep 10,
        EWrite (ascii_bytes ?c) (Written (length (ascii_bytes ?c)))] @ ESleep 20 # e2, t2, o2)"
    using first rest pos by (subst send_from.simps) (simp add: numeral_3_eq_3)
  then have "writes (fst (send refusing_once ?s 0)) =
      ascii_bytes ?c # ascii_bytes ?c # writes e2"
    by (simp add: send_def)
  with two have four: "length (writes (fst (send refusing_once ?s 0))) = 4"
    by simp
  have three: "(length (ascii_bytes ?s) + 31) div 32 = 3"
    unfolding ascii_bytes_def length_map sample_record_length by simp
  from claimed four three show False by simp
qed

text \<open>
  Claim C3, amended. For the record of every reply (its text is ASCII, so its encoding has
  one byte per character and slicing the text slices the bytes), whatever the channel
  answers: the encoding is split into its consecutive chunks of at most 32 bytes,
  \<open>ceil(L/32)\<close> of them for \<open>L\<close> bytes; every call of \<open>os.write\<close> passes one of these chunks
  and there are at most three calls per chunk; a send that reaches its end has made
  between one and three calls for each chunk in order, each refused call followed by the
  10 ms backoff, and each chunk's calls followed by the 20 ms delay; when every call from
  the start of the send on is accepted, the writes are exactly the chunks in order, each
  directly followed by the 20 ms delay, and the send reaches its end; a send is cut short
  only by an OSError of \<open>os.write\<close> other than BlockingIOError.
\<close>

theorem paced_writer_chunks:
  assumes "send wr (resp_str msg_id response_content) t = (evs, t', out)"
  shows "\<exists>bytes. utf8_encode (resp_str msg_id response_content) = Some bytes
           \<and> concat (byte_chunks bytes) = bytes
           \<and> length (byte_chunks bytes) = (length bytes + 31) div 32
           \<and> (\<forall>c \<in> set (byte_chunks bytes). length c \<le> 32)
           \<and> set (writes evs) \<subseteq> set (byte_chunks bytes)
           \<and> length (writes evs) \<le> 3 * ((length bytes + 31) div 32)
           \<and> (out = Normal \<longrightarrow>
                follows_plan (byte_chunks bytes) evs
                \<and> (length bytes + 31) div 32 \<le> length (writes evs))
           \<and> ((\<forall>k\<ge>t. \<forall>b. \<exists>n. wr k b = Written n) \<longrightarrow>
                writes evs = byte_chunks bytes \<and> paced evs \<and> out = Normal)
           \<and> (out \<noteq> Normal \<longrightarrow> (\<exists>e k b. out = Raised (OSError e) \<and> wr k b = WriteOSError e))"
proof -
  let ?s = "resp_str msg_id response_content"
  have asc: "is_ascii ?s" by (rule is_ascii_resp_str)
  note rc = record_chunks [OF asc]
  from assms have run: "send_from wr ?s 0 t = (evs, t', out)" by (simp add: send_def)
  note shape = send_from_shape [OF asc run, folded rc(2)]
  have len: "length (chunks_from ?s 0) = (length (ascii_bytes ?s) + 31) div 32"
    using rc(4) unfolding rc(2) by simp
  have acc: "writes evs = byte_chunks (ascii_bytes ?s) \<and> paced evs \<and> out = Normal"
    if "\<forall>k\<ge>t. \<forall>b. \<exists>n. wr k b = Written n"
    using send_from_accepted [OF asc that run] unfolding rc(2) by simp
  show ?thesis
  proof (intro exI [of _ "ascii_bytes ?s"] conjI)
    show "utf8_encode ?s = Some (ascii_bytes ?s)" by (rule rc(1))
    show "concat (byte_chunks (ascii_bytes ?s)) = ascii_bytes ?s" by (rule rc(3))
    show "length (byte_chunks (ascii_bytes ?s)) = (length (ascii_bytes ?s) + 31) div 32"
      by (rule rc(4))
    show "\<forall>c \<in> set (byte_chunks (ascii_bytes ?s)). length c \<le> 32" by (rule rc(5))
    show "set (writes evs) \<subseteq> set (byte_chunks (ascii_bytes ?s))" using shape by simp
    show "length (writes evs) \<le> 3 * ((length (ascii_bytes ?s) + 31) div 32)"
      using shape len by simp
    show "out = Normal \<longrightarrow>
            follows_plan (byte_chunks (ascii_bytes ?s)) evs
            \<and> (length (ascii_bytes ?s) + 31) div 32 \<le> length (writes evs)"
      using shape len by simp
    show "(\<forall>k\<ge>t. \<forall>b. \<exists>n. wr k b = Written n) \<longrightarrow>
            writes evs = byte_chunks (ascii_bytes ?s) \<and> paced evs \<and> out = Normal"
      using acc by blast
    show "out \<noteq> Normal \<longrightarrow> (\<exists>e k b. out = Raised (OSError e) \<and> wr k b = WriteOSError e)"
      using shape by simp
  qed
qed

theorem paced_writer_chunks_witness:
  "length (resp_str (JInt 42) (lit ''ok'')) = 71
   \<and> length (writes (fst (send accepting (resp_str (JInt 42) (lit ''ok'')) 0))) = 3
   \<and> paced (fst (send accepting (resp_str (JInt 42) (lit ''ok'')) 0))
   \<and> snd (snd (send accepting (resp_str (JInt 42) (lit ''ok'')) 0)) = Normal"
proof -
  let ?s = "resp_str (JInt 42) (lit ''ok'')"
  have run: "send accepting ?s 0 =
      (fst (send accepting ?s 0), fst (snd (send accepting ?s 0)), snd (snd (send accepting ?s 0)))"
    by simp
  have acc: "\<forall>k\<ge>0. \<forall>b. \<exists>n. accepting k b = Written n" by (simp add: accepting_def)
  from paced_writer_chunks [OF run] acc
  obtain bytes where b: "utf8_encode ?s = Some bytes"
    "length (byte_chunks bytes) = (length bytes + 31) div 32"
    "writes (fst (send accepting ?s 0)) = byte_chunks bytes"
    "paced (fst (send accepting ?s 0))" "snd (snd (send accepting ?s 0)) = Normal"
    by blast
  from b(1) utf8_encode_ascii [OF is_ascii_resp_str [of "JInt 42" "lit ''ok''"]]
  have "length bytes = 71" by (auto simp: ascii_bytes_def sample_record_length)
  with b show ?thesis by (simp add: sample_record_length)
qed




end
